theory Spec2Isabelle
  imports Main "HOL-Library.AList"
begin

section \<open>The job entity of \<open>lib/apscheduler/job.py\<close>\<close>

subsection \<open>Python values, exceptions and the collaborators of \<open>Job\<close>\<close>

text \<open>
  The Python values a \<open>Job\<close> can hold or be offered.  Date-times are points on an integer
  time line.  A callable object, a \<open>BaseTrigger\<close> instance and any other object are known by
  an object number; \<open>PObj\<close> stands for the objects that are neither callable, iterable,
  a mapping nor a trigger.  Floating point values are not part of the model.
\<close>

datatype pyval =
    PNone
  | PBool bool
  | PInt int
  | PStr string
  | PBytes string
  | PList "pyval list"
  | PTuple "pyval list"
  | PDict "(pyval \<times> pyval) list"
  | PDatetime int
  | PFunc nat
  | PTrigger nat
  | PObj nat

text \<open>The exceptions raised, each with the fixed part of its message.\<close>

datatype error =
    TypeError string
  | ValueError string
  | AttributeError string
  | KeyError string
  | LookupError string

text \<open>A keyword dictionary (\<open>**changes\<close>, \<open>approved\<close>, a pickled state) in insertion order.\<close>

type_synonym pydict = "(string \<times> pyval) list"

text \<open>\<open>bool(v)\<close>, as used by \<open>not v\<close>, \<open>v or w\<close> and \<open>v and w\<close>.\<close>

fun truthy :: "pyval \<Rightarrow> bool" where
  "truthy PNone = False"
| "truthy (PBool b) = b"
| "truthy (PInt i) = (i \<noteq> 0)"
| "truthy (PStr s) = (s \<noteq> [])"
| "truthy (PBytes s) = (s \<noteq> [])"
| "truthy (PList xs) = (xs \<noteq> [])"
| "truthy (PTuple xs) = (xs \<noteq> [])"
| "truthy (PDict kvs) = (kvs \<noteq> [])"
| "truthy (PDatetime t) = True"
| "truthy (PFunc f) = True"
| "truthy (PTrigger t) = True"
| "truthy (PObj n) = True"

text \<open>\<open>isinstance(v, six.string_types)\<close> and \<open>isinstance(v, str)\<close> (Python 3).\<close>

fun is_string :: "pyval \<Rightarrow> bool" where
  "is_string (PStr s) = True"
| "is_string v = False"

text \<open>\<open>isinstance(v, six.integer_types)\<close>: \<open>bool\<close> is a subclass of \<open>int\<close>.\<close>

fun is_integer :: "pyval \<Rightarrow> bool" where
  "is_integer (PInt i) = True"
| "is_integer (PBool b) = True"
| "is_integer v = False"

fun int_value :: "pyval \<Rightarrow> int" where
  "int_value (PInt i) = i"
| "int_value (PBool b) = (if b then 1 else 0)"
| "int_value v = 0"

text \<open>\<open>isinstance(v, Iterable)\<close>, \<open>isinstance(v, Mapping)\<close>, \<open>callable(v)\<close> and
  \<open>isinstance(v, BaseTrigger)\<close>.\<close>

fun is_iterable :: "pyval \<Rightarrow> bool" where
  "is_iterable (PStr s) = True"
| "is_iterable (PBytes s) = True"
| "is_iterable (PList xs) = True"
| "is_iterable (PTuple xs) = True"
| "is_iterable (PDict kvs) = True"
| "is_iterable v = False"

fun is_mapping :: "pyval \<Rightarrow> bool" where
  "is_mapping (PDict kvs) = True"
| "is_mapping v = False"

fun is_callable :: "pyval \<Rightarrow> bool" where
  "is_callable (PFunc f) = True"
| "is_callable v = False"

fun is_trigger :: "pyval \<Rightarrow> bool" where
  "is_trigger (PTrigger t) = True"
| "is_trigger v = False"

text \<open>
  What \<open>job.py\<close> imports from \<open>apscheduler.util\<close> and \<open>apscheduler.triggers.base\<close>, and
  the two values it takes from outside (\<open>uuid4().hex\<close> and the scheduler's \<open>timezone\<close>),
  are parameters of the model.  \<open>get_next_fire_time t prev now\<close> is the method of the
  trigger object numbered \<open>t\<close>; it returns a date-time or \<open>None\<close>.
\<close>

record env =
  ref_to_obj :: "pyval \<Rightarrow> error + pyval"
  obj_to_ref :: "pyval \<Rightarrow> error + pyval"
  get_callable_name :: "pyval \<Rightarrow> error + pyval"
  check_callable_args :: "pyval \<Rightarrow> pyval \<Rightarrow> pyval \<Rightarrow> error + unit"
  convert_to_datetime :: "pyval \<Rightarrow> pyval \<Rightarrow> string \<Rightarrow> error + pyval"
  timezone :: "pyval \<Rightarrow> error + pyval"
  get_next_fire_time :: "nat \<Rightarrow> int \<Rightarrow> int \<Rightarrow> int option"
  uuid4_hex :: string

subsection \<open>The \<open>Job\<close> object\<close>

text \<open>
  One field for each name in \<open>__slots__\<close>; \<open>None\<close> is a slot never assigned, whose read
  raises \<open>AttributeError\<close> and for which \<open>hasattr\<close> is false.
\<close>

record job =
  scheduler :: "pyval option"
  jobstore_alias :: "pyval option"
  id_slot :: "pyval option"
  trigger :: "pyval option"
  executor :: "pyval option"
  func :: "pyval option"
  func_ref :: "pyval option"
  args :: "pyval option"
  kwargs :: "pyval option"
  name :: "pyval option"
  misfire_grace_time :: "pyval option"
  coalesce :: "pyval option"
  max_instances :: "pyval option"
  next_run_time :: "pyval option"

text \<open>The object \<open>Job.__new__(Job)\<close> gives: no slot assigned.\<close>

definition new_job :: job where
  "new_job = \<lparr> scheduler = None, jobstore_alias = None, id_slot = None, trigger = None,
     executor = None, func = None, func_ref = None, args = None, kwargs = None, name = None,
     misfire_grace_time = None, coalesce = None, max_instances = None, next_run_time = None \<rparr>"

text \<open>Reading \<open>self.<attr>\<close>.\<close>

definition read_slot :: "string \<Rightarrow> pyval option \<Rightarrow> error + pyval" where
  "read_slot attr slot = (case slot of None \<Rightarrow> Inl (AttributeError attr) | Some v \<Rightarrow> Inr v)"

text \<open>Sequencing of steps that may raise.\<close>

definition bind_err :: "error + 'a \<Rightarrow> ('a \<Rightarrow> error + 'b) \<Rightarrow> error + 'b" where
  "bind_err m f = (case m of Inl e \<Rightarrow> Inl e | Inr x \<Rightarrow> f x)"

subsection \<open>\<open>Job._get_run_times\<close>\<close>

text \<open>
  The \<open>while\<close> loop over the local variables \<open>run_times\<close> and \<open>next_run_time\<close>, for a
  trigger method \<open>fire\<close>, entered with a local \<open>next_run_time\<close> that is the date-time
  \<open>t\<close>: the test \<open>t <= now\<close>, the body, and then the test \<open>next_run_time\<close> on what the
  trigger answered, which ends the loop on \<open>None\<close>.  The loop need not end, so it is a
  partial function: \<open>None\<close> is a run that never returns.
\<close>

partial_function (option) run_times_loop ::
  "(int \<Rightarrow> int \<Rightarrow> int option) \<Rightarrow> int \<Rightarrow> int list \<Rightarrow> int \<Rightarrow> int list option" where
  "run_times_loop fire now run_times t =
     (if t \<le> now then
        (case fire t now of
           None \<Rightarrow> Some (run_times @ [t])
         | Some u \<Rightarrow> run_times_loop fire now (run_times @ [t]) u)
      else Some run_times)"

text \<open>
  The method: \<open>None\<close> when it never returns, \<open>Some (Inl e)\<close> when it raises, and
  \<open>Some (Inr (run_times, self))\<close> when it returns \<open>run_times\<close>, with the object as the call
  leaves it.  The method assigns to no attribute of \<open>self\<close>.  A stored \<open>next_run_time\<close> that
  is false ends the loop at once; one that is true and no date-time cannot be compared with
  \<open>now\<close>.  The trigger is only looked at when the loop body runs.
\<close>

definition job_get_run_times :: "env \<Rightarrow> int \<Rightarrow> job \<Rightarrow> (error + int list \<times> job) option" where
  "job_get_run_times E now self =
     (case next_run_time self of
        None \<Rightarrow> Some (Inl (AttributeError ''next_run_time''))
      | Some v \<Rightarrow>
          if \<not> truthy v then Some (Inr ([], self))
          else (case v of
             PDatetime t \<Rightarrow>
               if t \<le> now then
                 (case trigger self of
                    None \<Rightarrow> Some (Inl (AttributeError ''trigger''))
                  | Some (PTrigger g) \<Rightarrow>
                      map_option (\<lambda>ts. Inr (ts, self))
                        (run_times_loop (get_next_fire_time E g) now [] t)
                  | Some w \<Rightarrow> Some (Inl (AttributeError ''get_next_fire_time'')))
               else Some (Inr ([], self))
           | w \<Rightarrow> Some (Inl (TypeError ''<= not supported''))))"

text \<open>
  What the enumeration is said to return: a chain of trigger answers, each the answer to the
  one before it, that starts at the stored \<open>next_run_time\<close> and stops before the first
  answer that is absent or later than \<open>now\<close>.
\<close>

fun fire_chain :: "(int \<Rightarrow> int \<Rightarrow> int option) \<Rightarrow> int \<Rightarrow> int list \<Rightarrow> bool" where
  "fire_chain fire now [] = True"
| "fire_chain fire now [t] = True"
| "fire_chain fire now (t # u # ts) = (fire t now = Some u \<and> fire_chain fire now (u # ts))"

definition enumerates :: "(int \<Rightarrow> int \<Rightarrow> int option) \<Rightarrow> int \<Rightarrow> int \<Rightarrow> int list \<Rightarrow> bool" where
  "enumerates fire now t ts =
     (sorted_wrt (<) ts \<and> list_all (\<lambda>x. t \<le> x \<and> x \<le> now) ts \<and> fire_chain fire now ts \<and>
      (case ts of
         [] \<Rightarrow> now < t
       | x # xs \<Rightarrow> x = t \<and> (case fire (last ts) now of None \<Rightarrow> True | Some u \<Rightarrow> now < u)))"

subsection \<open>\<open>Job._modify\<close>\<close>

text \<open>\<open>key in d\<close>, \<open>d[key]\<close>, and the \<open>d.pop(key) if key in d else self.<key>\<close> of the
  func/args/kwargs group.\<close>

definition has_key :: "pydict \<Rightarrow> string \<Rightarrow> bool" where
  "has_key d key = (map_of d key \<noteq> None)"

definition item :: "pydict \<Rightarrow> string \<Rightarrow> error + pyval" where
  "item d key = (case map_of d key of None \<Rightarrow> Inl (KeyError key) | Some v \<Rightarrow> Inr v)"

definition pop_or_read :: "pydict \<Rightarrow> string \<Rightarrow> pyval option \<Rightarrow> error + pyval \<times> pydict" where
  "pop_or_read changes key slot =
     (case map_of changes key of
        Some v \<Rightarrow> Inr (v, AList.delete key changes)
      | None \<Rightarrow> bind_err (read_slot key slot) (\<lambda>v. Inr (v, changes)))"

text \<open>
  Each \<open>if '<key>' in changes:\<close> block of \<open>_modify\<close> is a step on the pair of the local
  dictionaries \<open>changes\<close> and \<open>approved\<close>; it raises or returns the pair as the block
  leaves it.
\<close>

type_synonym batch = "pydict \<times> pydict"

definition modify_id :: "job \<Rightarrow> batch \<Rightarrow> error + batch" where
  "modify_id self = (\<lambda>(changes, approved).
     case map_of changes ''id'' of
       None \<Rightarrow> Inr (changes, approved)
     | Some v \<Rightarrow>
         if \<not> is_string v then Inl (TypeError ''id must be a nonempty string'')
         else if id_slot self \<noteq> None then Inl (ValueError ''The job ID may not be changed'')
         else Inr (AList.delete ''id'' changes, AList.update ''id'' v approved))"

text \<open>The resolved callable and its textual reference; only \<open>ValueError\<close> from
  \<open>obj_to_ref\<close> is caught.\<close>

definition resolve_func :: "env \<Rightarrow> pyval \<Rightarrow> error + pyval \<times> pyval" where
  "resolve_func E f =
     (if is_string f then bind_err (ref_to_obj E f) (\<lambda>obj. Inr (obj, f))
      else if is_callable f then
        (case obj_to_ref E f of
           Inr r \<Rightarrow> Inr (f, r)
         | Inl (ValueError m) \<Rightarrow> Inr (f, PNone)
         | Inl e \<Rightarrow> Inl e)
      else Inl (TypeError ''func must be a callable or a textual reference to one''))"

text \<open>\<open>if not hasattr(self, 'name') and changes.get('name', None) is None:
  changes['name'] = get_callable_name(func)\<close>\<close>

definition default_name :: "env \<Rightarrow> job \<Rightarrow> pydict \<Rightarrow> pyval \<Rightarrow> error + pydict" where
  "default_name E self changes f =
     (if name self = None \<and> (case map_of changes ''name'' of None \<Rightarrow> True | Some v \<Rightarrow> v = PNone)
      then bind_err (get_callable_name E f) (\<lambda>n. Inr (AList.update ''name'' n changes))
      else Inr changes)"

definition modify_func :: "env \<Rightarrow> job \<Rightarrow> batch \<Rightarrow> error + batch" where
  "modify_func E self = (\<lambda>(changes, approved).
     if has_key changes ''func'' \<or> has_key changes ''args'' \<or> has_key changes ''kwargs'' then
       bind_err (pop_or_read changes ''func'' (func self)) (\<lambda>(f, changes).
       bind_err (pop_or_read changes ''args'' (args self)) (\<lambda>(a, changes).
       bind_err (pop_or_read changes ''kwargs'' (kwargs self)) (\<lambda>(k, changes).
       bind_err (resolve_func E f) (\<lambda>(f, r).
       bind_err (default_name E self changes f) (\<lambda>changes.
       if is_string a \<or> \<not> is_iterable a then
         Inl (TypeError ''args must be a non-string iterable'')
       else if is_string k \<or> \<not> is_mapping k then
         Inl (TypeError ''kwargs must be a dict-like object'')
       else
         bind_err (check_callable_args E f a k) (\<lambda>u.
         Inr (changes,
              AList.update ''kwargs'' k (AList.update ''args'' a
                (AList.update ''func_ref'' r (AList.update ''func'' f approved))))))))))
     else Inr (changes, approved))"

definition modify_name :: "batch \<Rightarrow> error + batch" where
  "modify_name = (\<lambda>(changes, approved).
     case map_of changes ''name'' of
       None \<Rightarrow> Inr (changes, approved)
     | Some v \<Rightarrow>
         if \<not> truthy v \<or> \<not> is_string v then Inl (TypeError ''name must be a nonempty string'')
         else Inr (AList.delete ''name'' changes, AList.update ''name'' v approved))"

definition modify_misfire_grace_time :: "batch \<Rightarrow> error + batch" where
  "modify_misfire_grace_time = (\<lambda>(changes, approved).
     case map_of changes ''misfire_grace_time'' of
       None \<Rightarrow> Inr (changes, approved)
     | Some v \<Rightarrow>
         if v \<noteq> PNone \<and> (\<not> is_integer v \<or> int_value v \<le> 0) then
           Inl (TypeError ''misfire_grace_time must be either None or a positive integer'')
         else Inr (AList.delete ''misfire_grace_time'' changes,
                   AList.update ''misfire_grace_time'' v approved))"

definition modify_coalesce :: "batch \<Rightarrow> error + batch" where
  "modify_coalesce = (\<lambda>(changes, approved).
     case map_of changes ''coalesce'' of
       None \<Rightarrow> Inr (changes, approved)
     | Some v \<Rightarrow>
         Inr (AList.delete ''coalesce'' changes,
              AList.update ''coalesce'' (PBool (truthy v)) approved))"

definition modify_max_instances :: "batch \<Rightarrow> error + batch" where
  "modify_max_instances = (\<lambda>(changes, approved).
     case map_of changes ''max_instances'' of
       None \<Rightarrow> Inr (changes, approved)
     | Some v \<Rightarrow>
         if \<not> is_integer v \<or> int_value v \<le> 0 then
           Inl (TypeError ''max_instances must be a positive integer'')
         else Inr (AList.delete ''max_instances'' changes,
                   AList.update ''max_instances'' v approved))"

definition modify_trigger :: "batch \<Rightarrow> error + batch" where
  "modify_trigger = (\<lambda>(changes, approved).
     case map_of changes ''trigger'' of
       None \<Rightarrow> Inr (changes, approved)
     | Some v \<Rightarrow>
         if \<not> is_trigger v then Inl (TypeError ''Expected a trigger instance'')
         else Inr (AList.delete ''trigger'' changes, AList.update ''trigger'' v approved))"

definition modify_executor :: "batch \<Rightarrow> error + batch" where
  "modify_executor = (\<lambda>(changes, approved).
     case map_of changes ''executor'' of
       None \<Rightarrow> Inr (changes, approved)
     | Some v \<Rightarrow>
         if \<not> is_string v then Inl (TypeError ''executor must be a string'')
         else Inr (AList.delete ''executor'' changes, AList.update ''executor'' v approved))"

definition modify_next_run_time :: "env \<Rightarrow> job \<Rightarrow> batch \<Rightarrow> error + batch" where
  "modify_next_run_time E self = (\<lambda>(changes, approved).
     case map_of changes ''next_run_time'' of
       None \<Rightarrow> Inr (changes, approved)
     | Some v \<Rightarrow>
         bind_err (read_slot ''_scheduler'' (scheduler self)) (\<lambda>sched.
         bind_err (timezone E sched) (\<lambda>tz.
         bind_err (convert_to_datetime E v tz ''next_run_time'') (\<lambda>d.
         Inr (AList.delete ''next_run_time'' changes,
              AList.update ''next_run_time'' d approved)))))"

text \<open>The blocks in the order of the source, run until one raises.\<close>

definition modify_steps :: "env \<Rightarrow> job \<Rightarrow> (batch \<Rightarrow> error + batch) list" where
  "modify_steps E self =
     [modify_id self, modify_func E self, modify_name, modify_misfire_grace_time,
      modify_coalesce, modify_max_instances, modify_trigger, modify_executor,
      modify_next_run_time E self]"

fun run_steps :: "('s \<Rightarrow> error + 's) list \<Rightarrow> 's \<Rightarrow> error + 's" where
  "run_steps [] s = Inr s"
| "run_steps (step # steps) s = bind_err (step s) (run_steps steps)"

text \<open>Everything of \<open>_modify\<close> before the final loop: the blocks, then \<open>if changes: raise\<close>.
  It returns \<open>approved\<close>.\<close>

definition validate :: "env \<Rightarrow> job \<Rightarrow> pydict \<Rightarrow> error + pydict" where
  "validate E self changes =
     bind_err (run_steps (modify_steps E self) (changes, [])) (\<lambda>(changes, approved).
       if changes \<noteq> [] then
         Inl (AttributeError ''The following are not modifiable attributes of Job'')
       else Inr approved)"

text \<open>\<open>setattr(self, key, value)\<close> and \<open>getattr\<close> on an object with \<open>__slots__\<close>: a name
  outside the slots raises.\<close>

definition setattr :: "job \<Rightarrow> string \<Rightarrow> pyval \<Rightarrow> error + job" where
  "setattr self key v =
     (if key = ''_scheduler'' then Inr (self\<lparr>scheduler := Some v\<rparr>)
      else if key = ''_jobstore_alias'' then Inr (self\<lparr>jobstore_alias := Some v\<rparr>)
      else if key = ''id'' then Inr (self\<lparr>id_slot := Some v\<rparr>)
      else if key = ''trigger'' then Inr (self\<lparr>trigger := Some v\<rparr>)
      else if key = ''executor'' then Inr (self\<lparr>executor := Some v\<rparr>)
      else if key = ''func'' then Inr (self\<lparr>func := Some v\<rparr>)
      else if key = ''func_ref'' then Inr (self\<lparr>func_ref := Some v\<rparr>)
      else if key = ''args'' then Inr (self\<lparr>args := Some v\<rparr>)
      else if key = ''kwargs'' then Inr (self\<lparr>kwargs := Some v\<rparr>)
      else if key = ''name'' then Inr (self\<lparr>name := Some v\<rparr>)
      else if key = ''misfire_grace_time'' then Inr (self\<lparr>misfire_grace_time := Some v\<rparr>)
      else if key = ''coalesce'' then Inr (self\<lparr>coalesce := Some v\<rparr>)
      else if key = ''max_instances'' then Inr (self\<lparr>max_instances := Some v\<rparr>)
      else if key = ''next_run_time'' then Inr (self\<lparr>next_run_time := Some v\<rparr>)
      else Inl (AttributeError key))"

definition getattr :: "job \<Rightarrow> string \<Rightarrow> pyval option" where
  "getattr self key =
     (if key = ''_scheduler'' then scheduler self
      else if key = ''_jobstore_alias'' then jobstore_alias self
      else if key = ''id'' then id_slot self
      else if key = ''trigger'' then trigger self
      else if key = ''executor'' then executor self
      else if key = ''func'' then func self
      else if key = ''func_ref'' then func_ref self
      else if key = ''args'' then args self
      else if key = ''kwargs'' then kwargs self
      else if key = ''name'' then name self
      else if key = ''misfire_grace_time'' then misfire_grace_time self
      else if key = ''coalesce'' then coalesce self
      else if key = ''max_instances'' then max_instances self
      else if key = ''next_run_time'' then next_run_time self
      else None)"

text \<open>The final loop \<open>for key, value in six.iteritems(approved): setattr(self, key, value)\<close>:
  an assignment that raised would leave the earlier ones in place.\<close>

fun set_all :: "pydict \<Rightarrow> job \<Rightarrow> (error + unit) \<times> job" where
  "set_all [] self = (Inr (), self)"
| "set_all ((key, v) # kvs) self =
     (case setattr self key v of
        Inl e \<Rightarrow> (Inl e, self)
      | Inr self' \<Rightarrow> set_all kvs self')"

text \<open>\<open>Job._modify(self, **changes)\<close>: what it raises or returns, and the object afterwards.\<close>

definition job_modify :: "env \<Rightarrow> pydict \<Rightarrow> job \<Rightarrow> (error + unit) \<times> job" where
  "job_modify E changes self =
     (case validate E self changes of
        Inl e \<Rightarrow> (Inl e, self)
      | Inr approved \<Rightarrow> set_all approved self)"

text \<open>The field names \<open>_modify\<close> has a block for, and the names it may put in \<open>approved\<close>.\<close>

definition modifiable :: "string list" where
  "modifiable = [''id'', ''func'', ''args'', ''kwargs'', ''name'', ''misfire_grace_time'',
     ''coalesce'', ''max_instances'', ''trigger'', ''executor'', ''next_run_time'']"

definition approvable :: "string list" where
  "approvable = ''func_ref'' # modifiable"

text \<open>\<open>Job.__init__(self, scheduler, id=None, **kwargs)\<close>, on the new object.\<close>

definition job_init :: "env \<Rightarrow> pyval \<Rightarrow> pyval \<Rightarrow> pydict \<Rightarrow> (error + unit) \<times> job" where
  "job_init E sched idv kws =
     job_modify E ((''id'', if truthy idv then idv else PStr (uuid4_hex E)) # kws)
       (new_job\<lparr>scheduler := Some sched, jobstore_alias := Some PNone\<rparr>)"

subsection \<open>\<open>Job.__getstate__\<close> and \<open>Job.__setstate__\<close>\<close>

text \<open>
  \<open>__getstate__\<close> reads \<open>self.func_ref\<close>; when it is false the message is built from
  \<open>self.func\<close> and \<open>ValueError\<close> is raised.  Otherwise the slots are read in the order of the
  dictionary display.
\<close>

definition not_serializable :: error where
  "not_serializable =
     ValueError ''This Job cannot be serialized since the reference to its callable could not be determined''"

definition job_getstate :: "job \<Rightarrow> error + pydict" where
  "job_getstate self =
     bind_err (read_slot ''func_ref'' (func_ref self)) (\<lambda>r.
     if \<not> truthy r then
       bind_err (read_slot ''func'' (func self)) (\<lambda>f. Inl not_serializable)
     else
       bind_err (read_slot ''id'' (id_slot self)) (\<lambda>v_id.
       bind_err (read_slot ''func_ref'' (func_ref self)) (\<lambda>v_func.
       bind_err (read_slot ''trigger'' (trigger self)) (\<lambda>v_trigger.
       bind_err (read_slot ''executor'' (executor self)) (\<lambda>v_executor.
       bind_err (read_slot ''args'' (args self)) (\<lambda>v_args.
       bind_err (read_slot ''kwargs'' (kwargs self)) (\<lambda>v_kwargs.
       bind_err (read_slot ''name'' (name self)) (\<lambda>v_name.
       bind_err (read_slot ''misfire_grace_time'' (misfire_grace_time self)) (\<lambda>v_misfire.
       bind_err (read_slot ''coalesce'' (coalesce self)) (\<lambda>v_coalesce.
       bind_err (read_slot ''max_instances'' (max_instances self)) (\<lambda>v_max.
       bind_err (read_slot ''next_run_time'' (next_run_time self)) (\<lambda>v_next.
       Inr [(''version'', PInt 1), (''id'', v_id), (''func'', v_func),
            (''trigger'', v_trigger), (''executor'', v_executor), (''args'', v_args),
            (''kwargs'', v_kwargs), (''name'', v_name), (''misfire_grace_time'', v_misfire),
            (''coalesce'', v_coalesce), (''max_instances'', v_max),
            (''next_run_time'', v_next)]))))))))))))"

text \<open>\<open>state.get('version', 1) > 1\<close>: an integer (or a \<open>bool\<close>) is compared, any other
  value cannot be ordered against \<open>1\<close>.\<close>

definition version_tag :: "pydict \<Rightarrow> pyval" where
  "version_tag state = (case map_of state ''version'' of None \<Rightarrow> PInt 1 | Some v \<Rightarrow> v)"

definition greater_than_1 :: "pyval \<Rightarrow> error + bool" where
  "greater_than_1 v =
     (if is_integer v then Inr (1 < int_value v) else Inl (TypeError ''> not supported''))"

definition version_error :: error where
  "version_error = ValueError ''Job has version %s, but only version 1 can be handled''"

text \<open>One assignment \<open>self.<slot> = state['<key>']\<close>, and the assignment
  \<open>self.func = ref_to_obj(self.func_ref)\<close>.\<close>

definition load_item ::
  "pydict \<Rightarrow> string \<Rightarrow> ((pyval option \<Rightarrow> pyval option) \<Rightarrow> job \<Rightarrow> job) \<Rightarrow> job \<Rightarrow> error + job" where
  "load_item state key upd self = bind_err (item state key) (\<lambda>v. Inr (upd (\<lambda>old. Some v) self))"

definition load_func :: "env \<Rightarrow> job \<Rightarrow> error + job" where
  "load_func E self =
     bind_err (read_slot ''func_ref'' (func_ref self)) (\<lambda>r.
     bind_err (ref_to_obj E r) (\<lambda>f. Inr (self\<lparr>func := Some f\<rparr>)))"

definition setstate_steps :: "env \<Rightarrow> pydict \<Rightarrow> (job \<Rightarrow> error + job) list" where
  "setstate_steps E state =
     [load_item state ''id'' id_slot_update,
      load_item state ''func'' func_ref_update,
      load_func E,
      load_item state ''trigger'' trigger_update,
      load_item state ''executor'' executor_update,
      load_item state ''args'' args_update,
      load_item state ''kwargs'' kwargs_update,
      load_item state ''name'' name_update,
      load_item state ''misfire_grace_time'' misfire_grace_time_update,
      load_item state ''coalesce'' coalesce_update,
      load_item state ''max_instances'' max_instances_update,
      load_item state ''next_run_time'' next_run_time_update]"

text \<open>The assignments in order; one that raises leaves the earlier ones in place.\<close>

fun assign_all :: "(job \<Rightarrow> error + job) list \<Rightarrow> job \<Rightarrow> (error + unit) \<times> job" where
  "assign_all [] self = (Inr (), self)"
| "assign_all (step # steps) self =
     (case step self of
        Inl e \<Rightarrow> (Inl e, self)
      | Inr self' \<Rightarrow> assign_all steps self')"

definition job_setstate :: "env \<Rightarrow> pydict \<Rightarrow> job \<Rightarrow> (error + unit) \<times> job" where
  "job_setstate E state self =
     (case greater_than_1 (version_tag state) of
        Inl e \<Rightarrow> (Inl e, self)
      | Inr True \<Rightarrow> (Inl version_error, self)
      | Inr False \<Rightarrow> assign_all (setstate_steps E state) self)"

subsection \<open>A registry, a trigger and a job to run the definitions on\<close>

text \<open>
  Time in minutes of the day.  The trigger of the scenario answers 10:05, 10:10, 10:20 and
  then nothing.  The registry knows the function \<open>PFunc 0\<close> as \<open>mod:f\<close>; any other callable
  has no textual reference.
\<close>

definition scenario_fire :: "int \<Rightarrow> int \<Rightarrow> int option" where
  "scenario_fire t now =
     (if t < 605 then Some 605 else if t < 610 then Some 610
      else if t < 620 then Some 620 else None)"

definition demo_env :: env where
  "demo_env = \<lparr>
     ref_to_obj = (\<lambda>v. if v = PStr ''mod:f'' then Inr (PFunc 0)
                       else Inl (LookupError ''Error resolving reference'')),
     obj_to_ref = (\<lambda>v. if v = PFunc 0 then Inr (PStr ''mod:f'')
                       else Inl (ValueError ''Cannot determine the reference'')),
     get_callable_name = (\<lambda>v. if is_callable v then Inr (PStr ''f'')
                       else Inl (TypeError ''Unable to determine a name'')),
     check_callable_args = (\<lambda>f a k. Inr ()),
     convert_to_datetime = (\<lambda>v tz arg. case v of PNone \<Rightarrow> Inr v | PDatetime t \<Rightarrow> Inr v
                       | w \<Rightarrow> Inl (TypeError ''Unsupported type'')),
     timezone = (\<lambda>sched. Inr (PStr ''UTC'')),
     get_next_fire_time = (\<lambda>g. scenario_fire),
     uuid4_hex = ''0123456789abcdef0123456789abcdef'' \<rparr>"

definition scenario_job :: job where
  "scenario_job = \<lparr> scheduler = Some (PObj 0), jobstore_alias = Some PNone,
     id_slot = Some (PStr ''job1''), trigger = Some (PTrigger 0),
     executor = Some (PStr ''default''), func = Some (PFunc 0),
     func_ref = Some (PStr ''mod:f''), args = Some (PTuple []), kwargs = Some (PDict []),
     name = Some (PStr ''f''), misfire_grace_time = Some (PInt 1),
     coalesce = Some (PBool True), max_instances = Some (PInt 1),
     next_run_time = Some (PDatetime 600) \<rparr>"

text \<open>The snapshot of that job, without its version tag.\<close>

definition unversioned_state :: pydict where
  "unversioned_state =
     [(''id'', PStr ''job1''), (''func'', PStr ''mod:f''), (''trigger'', PTrigger 0),
      (''executor'', PStr ''default''), (''args'', PTuple []), (''kwargs'', PDict []),
      (''name'', PStr ''f''), (''misfire_grace_time'', PInt 1), (''coalesce'', PBool True),
      (''max_instances'', PInt 1), (''next_run_time'', PDatetime 600)]"

subsection \<open>What a run of the blocks of \<open>_modify\<close> does to the two dictionaries\<close>

text \<open>The keys of a dictionary.\<close>

definition keys :: "pydict \<Rightarrow> string set" where
  "keys d = fst ` set d"

text \<open>
  \<open>advances D W (changes, approved) (changes', approved')\<close>: from the first pair of
  dictionaries to the second, only keys in \<open>D\<close> have left \<open>changes\<close>, every key that left
  it is in \<open>approved'\<close>, \<open>approved\<close> has lost no key and won only keys in \<open>W\<close>, it has no
  key twice if it had none, and its entries outside \<open>W\<close> are the same.
\<close>

fun advances :: "string set \<Rightarrow> string set \<Rightarrow> batch \<Rightarrow> batch \<Rightarrow> bool" where
  "advances D W (c, ap) (c', ap') =
     ((\<forall>k. k \<in> keys c \<and> k \<notin> D \<longrightarrow> k \<in> keys c') \<and>
      (\<forall>k. k \<in> keys c \<longrightarrow> k \<in> keys c' \<or> k \<in> keys ap') \<and>
      keys ap \<subseteq> keys ap' \<and> keys ap' \<subseteq> keys ap \<union> W \<and>
      (distinct (map fst ap) \<longrightarrow> distinct (map fst ap')) \<and>
      (\<forall>k. k \<notin> W \<longrightarrow> map_of ap' k = map_of ap k))"

declare advances.simps [simp del]

text \<open>The blocks after the func/args/kwargs group, and the keys they are about.\<close>

definition tail_keys :: "string list" where
  "tail_keys = [''name'', ''misfire_grace_time'', ''coalesce'', ''max_instances'',
     ''trigger'', ''executor'', ''next_run_time'']"

definition tail_steps :: "env \<Rightarrow> job \<Rightarrow> (batch \<Rightarrow> error + batch) list" where
  "tail_steps E self =
     [modify_name, modify_misfire_grace_time, modify_coalesce, modify_max_instances,
      modify_trigger, modify_executor, modify_next_run_time E self]"

text \<open>
  The keys whose block approves the proposed value as it is.  A key is settled when it is
  still in \<open>changes\<close> with the value the batch gave it and not yet in \<open>approved\<close>, or
  has left \<open>changes\<close> and is in \<open>approved\<close> with that value (or was never given).
\<close>

definition verbatim_keys :: "string list" where
  "verbatim_keys = [''id'', ''misfire_grace_time'', ''max_instances'', ''trigger'', ''executor'']"

definition settled :: "string \<Rightarrow> pydict \<Rightarrow> batch \<Rightarrow> bool" where
  "settled k c0 s =
     (case s of (c, ap) \<Rightarrow>
        (map_of ap k = None \<and> map_of c k = map_of c0 k) \<or>
        (map_of c k = None \<and> map_of ap k = map_of c0 k))"

text \<open>The scenario's job after its callable was replaced by one without a textual reference.\<close>

definition unreferenced_job :: job where
  "unreferenced_job = scenario_job\<lparr>func := Some (PFunc 1), func_ref := Some PNone,
     args := Some (PTuple []), kwargs := Some (PDict [])\<rparr>"

section \<open>Properties of the run-time enumeration\<close>

text \<open>
  With a trigger that answers later than it is asked about, the loop returns: it extends the
  list it was entered with by an increasing chain of trigger answers between \<open>t\<close> and \<open>now\<close>.
\<close>

lemma run_times_loop_total:
  assumes mono: "\<And>t u. fire t now = Some u \<Longrightarrow> t < u"
  shows "\<exists>ts. run_times_loop fire now rts t = Some (rts @ ts) \<and> enumerates fire now t ts"
proof (induction "nat (now + 1 - t)" arbitrary: rts t rule: less_induct)
  case less
  show ?case
  proof (cases "t \<le> now")
    case False
    then have "run_times_loop fire now rts t = Some (rts @ [])"
      by (subst run_times_loop.simps) simp
    moreover have "enumerates fire now t []"
      using False by (simp add: enumerates_def)
    ultimately show ?thesis by blast
  next
    case True
    show ?thesis
    proof (cases "fire t now")
      case None
      then have "run_times_loop fire now rts t = Some (rts @ [t])"
        using True by (subst run_times_loop.simps) simp
      moreover have "enumerates fire now t [t]"
        using True None by (simp add: enumerates_def)
      ultimately show ?thesis by blast
    next
      case (Some u)
      then have tu: "t < u" by (rule mono)
      then have "nat (now + 1 - u) < nat (now + 1 - t)" using True by simp
      from less [OF this, of "rts @ [t]"]
      obtain us where us: "run_times_loop fire now (rts @ [t]) u = Some ((rts @ [t]) @ us)"
        and en: "enumerates fire now u us" by blast
      have "run_times_loop fire now rts t = Some (rts @ (t # us))"
        using True Some us by (subst run_times_loop.simps) simp
      moreover have "enumerates fire now t (t # us)"
      proof (cases us)
        case Nil
        then show ?thesis using en True Some by (simp add: enumerates_def)
      next
        case (Cons x xs)
        then show ?thesis using en True Some tu
          by (auto simp: enumerates_def list_all_iff)
      qed
      ultimately show ?thesis by blast
    qed
  qed
qed

text \<open>A stored \<open>next_run_time\<close> of \<open>None\<close> enumerates nothing, whatever the trigger.\<close>

lemma get_run_times_none:
  "next_run_time self = Some PNone \<Longrightarrow> job_get_run_times E now self = Some (Inr ([], self))"
  by (simp add: job_get_run_times_def)

text \<open>
  C3.  For a job whose trigger is strictly monotonic (its answer is never at or before the
  time it is asked about), \<open>_get_run_times\<close> returns for every \<open>now\<close>.  The list it returns
  is strictly increasing, every element is at most \<open>now\<close>, it starts at the stored
  \<open>next_run_time\<close> and each further element is the trigger's answer to the one before; it
  stops before the first answer that is absent or later than \<open>now\<close>.  A call on any job
  with the same trigger and \<open>next_run_time\<close> and the same \<open>now\<close> returns the same list.
\<close>

theorem get_run_times_increasing:
  assumes mono: "\<forall>t n u. get_next_fire_time E g t n = Some u \<longrightarrow> t < u"
    and trig: "trigger self = Some (PTrigger g)"
    and nrt: "next_run_time self = Some (PDatetime t0)"
  shows "\<exists>ts. job_get_run_times E now self = Some (Inr (ts, self)) \<and>
            sorted_wrt (<) ts \<and> (\<forall>x\<in>set ts. x \<le> now) \<and>
            enumerates (get_next_fire_time E g) now t0 ts \<and>
            (\<forall>other. trigger other = trigger self \<and> next_run_time other = next_run_time self
               \<longrightarrow> job_get_run_times E now other = Some (Inr (ts, other)))"
proof -
  from mono have "\<And>t u. get_next_fire_time E g t now = Some u \<Longrightarrow> t < u" by blast
  from run_times_loop_total [of "get_next_fire_time E g" now "[]" t0, OF this]
  obtain ts where run: "run_times_loop (get_next_fire_time E g) now [] t0 = Some ts"
    and en: "enumerates (get_next_fire_time E g) now t0 ts" by auto
  have empty: "\<not> t0 \<le> now \<Longrightarrow> ts = []"
    using en by (cases ts) (auto simp: enumerates_def)
  have res: "job_get_run_times E now j = Some (Inr (ts, j))"
    if "trigger j = Some (PTrigger g)" "next_run_time j = Some (PDatetime t0)" for j
    using that run empty by (simp add: job_get_run_times_def)
  have "sorted_wrt (<) ts" "\<forall>x\<in>set ts. x \<le> now"
    using en by (auto simp: enumerates_def list_all_iff)
  then show ?thesis using res [OF trig nrt] en res trig nrt by auto
qed

theorem get_run_times_increasing_witness:
  "trigger scenario_job = Some (PTrigger 0) \<and>
   next_run_time scenario_job = Some (PDatetime 600) \<and>
   (\<exists>ts. job_get_run_times demo_env 612 scenario_job = Some (Inr (ts, scenario_job)) \<and>
      sorted_wrt (<) ts \<and> (\<forall>x\<in>set ts. x \<le> 612) \<and>
      enumerates (get_next_fire_time demo_env 0) 612 600 ts)"
proof -
  have m: "\<forall>t n u. get_next_fire_time demo_env 0 t n = Some u \<longrightarrow> t < u"
    by (simp add: demo_env_def scenario_fire_def)
  have t: "trigger scenario_job = Some (PTrigger 0)" by (simp add: scenario_job_def)
  have n: "next_run_time scenario_job = Some (PDatetime 600)" by (simp add: scenario_job_def)
  from get_run_times_increasing [OF m t n, of 612] t n show ?thesis by blast
qed

text \<open>
  C2, as the code has it.  \<open>_get_run_times\<close> assigns to no attribute: when it returns, the
  job is the job it was called on, so \<open>next_run_time\<close> still holds the value from before the
  call.  The first time that is not yet due lives in a local variable only.
\<close>

theorem get_run_times_assigns_nothing:
  assumes "job_get_run_times E now self = Some (Inr r)"
  shows "snd r = self"
  using assms
  by (auto simp: job_get_run_times_def split: option.splits if_splits pyval.splits)

theorem get_run_times_assigns_nothing_witness:
  "job_get_run_times demo_env 612 scenario_job = Some (Inr ([600, 605, 610], scenario_job)) \<and>
   next_run_time (snd ([600, 605, 610], scenario_job)) = Some (PDatetime 600)"
proof -
  have h: "job_get_run_times demo_env 612 scenario_job
             = Some (Inr ([600, 605, 610], scenario_job))"
    by (simp add: job_get_run_times_def scenario_job_def demo_env_def scenario_fire_def
          run_times_loop.simps)
  from get_run_times_assigns_nothing [OF h] h show ?thesis
    by (simp add: scenario_job_def)
qed

text \<open>
  C2, as the specification states it, fails on the scenario: after the enumeration with
  \<open>now\<close> = 10:12 the job's \<open>next_run_time\<close> is still 10:00 and not 10:20, and the later
  enumeration with \<open>now\<close> = 10:21 returns 10:00, 10:05 and 10:10 again.
\<close>

theorem get_run_times_repositions_counterexample:
  "job_get_run_times demo_env 612 scenario_job = Some (Inr ([600, 605, 610], scenario_job)) \<and>
   next_run_time scenario_job = Some (PDatetime 600) \<and>
   next_run_time scenario_job \<noteq> Some (PDatetime 620) \<and>
   job_get_run_times demo_env 621 scenario_job =
     Some (Inr ([600, 605, 610, 620], scenario_job))"
  by (simp add: job_get_run_times_def scenario_job_def demo_env_def scenario_fire_def
        run_times_loop.simps)

section \<open>Properties of the serialization\<close>

text \<open>
  C8.  For every snapshot whose version tag is an integer greater than 1, \<open>__setstate__\<close>
  raises the version error, and the job is as it was before the call: no field has been
  assigned and no item of the snapshot other than the tag has been looked at.
\<close>

theorem setstate_rejects_newer_version:
  assumes "map_of state ''version'' = Some (PInt v)" and "1 < v"
  shows "job_setstate E state self = (Inl version_error, self)"
  using assms by (simp add: job_setstate_def version_tag_def greater_than_1_def)

theorem setstate_rejects_newer_version_witness:
  "job_setstate demo_env ((''version'', PInt 2) # unversioned_state) new_job
     = (Inl version_error, new_job)"
  using setstate_rejects_newer_version [of "(''version'', PInt 2) # unversioned_state" 2 demo_env new_job]
  by simp

text \<open>Items other than the version tag are found the same with or without the tag.\<close>

lemma item_skip_version:
  "key \<noteq> ''version'' \<Longrightarrow> item ((''version'', v) # state) key = item state key"
  by (simp add: item_def)

lemma setstate_steps_skip_version:
  "setstate_steps E ((''version'', v) # state) = setstate_steps E state"
  by (simp add: setstate_steps_def fun_eq_iff load_item_def item_skip_version)

text \<open>
  C10.  A snapshot with no version tag at all passes the version check of \<open>__setstate__\<close>:
  the call goes on to the assignments, and does exactly what it does on the same snapshot
  with the tag 1 added.
\<close>

theorem setstate_missing_version:
  assumes "map_of state ''version'' = None"
  shows "job_setstate E state self = assign_all (setstate_steps E state) self \<and>
         job_setstate E state self = job_setstate E ((''version'', PInt 1) # state) self"
  using assms
  by (simp add: job_setstate_def version_tag_def greater_than_1_def setstate_steps_skip_version)

lemma unversioned_load:
  "assign_all (setstate_steps demo_env unversioned_state) new_job
     = (Inr (), scenario_job\<lparr>scheduler := None, jobstore_alias := None\<rparr>)"
  by (simp add: setstate_steps_def load_item_def load_func_def item_def bind_err_def
        read_slot_def unversioned_state_def new_job_def scenario_job_def demo_env_def)

theorem setstate_missing_version_witness:
  "job_setstate demo_env unversioned_state new_job
     = (Inr (), scenario_job\<lparr>scheduler := None, jobstore_alias := None\<rparr>)"
proof -
  have "map_of unversioned_state ''version'' = None"
    by (simp add: unversioned_state_def)
  from setstate_missing_version [OF this, of demo_env new_job] show ?thesis
    by (simp add: unversioned_load)
qed

text \<open>When \<open>__getstate__\<close> returns, every slot it reads was assigned, the textual reference
  is true, and the snapshot is the version tag 1 followed by the slots.\<close>

lemma getstate_Inr:
  assumes "job_getstate self = Inr state"
  shows "\<exists>v_id r tr ex a k n m c mx nx.
           id_slot self = Some v_id \<and> func_ref self = Some r \<and> truthy r \<and>
           trigger self = Some tr \<and> executor self = Some ex \<and> args self = Some a \<and>
           kwargs self = Some k \<and> name self = Some n \<and> misfire_grace_time self = Some m \<and>
           coalesce self = Some c \<and> max_instances self = Some mx \<and>
           next_run_time self = Some nx \<and>
           state = [(''version'', PInt 1), (''id'', v_id), (''func'', r), (''trigger'', tr),
                    (''executor'', ex), (''args'', a), (''kwargs'', k), (''name'', n),
                    (''misfire_grace_time'', m), (''coalesce'', c), (''max_instances'', mx),
                    (''next_run_time'', nx)]"
  using assms
  by (simp add: job_getstate_def bind_err_def read_slot_def split: option.splits if_splits)

text \<open>
  C9.  For a job that \<open>__getstate__\<close> serializes, under a registry where \<open>ref_to_obj\<close> of the
  job's textual reference gives the job's callable, \<open>__setstate__\<close> of the snapshot on any
  object succeeds and gives id, executor, args, kwargs, name, misfire_grace_time, coalesce,
  max_instances and next_run_time equal to the original's, and also its trigger, its textual
  reference and its callable; the two slots that are not part of the snapshot keep what the
  receiving object had.
\<close>

theorem setstate_getstate_roundtrip:
  assumes get: "job_getstate self = Inr state"
    and ref: "func_ref self = Some r" and fn: "func self = Some f"
    and reg: "ref_to_obj E r = Inr f"
  shows "\<exists>self'. job_setstate E state other = (Inr (), self') \<and>
           id_slot self' = id_slot self \<and> executor self' = executor self \<and>
           args self' = args self \<and> kwargs self' = kwargs self \<and> name self' = name self \<and>
           misfire_grace_time self' = misfire_grace_time self \<and>
           coalesce self' = coalesce self \<and> max_instances self' = max_instances self \<and>
           next_run_time self' = next_run_time self \<and> trigger self' = trigger self \<and>
           func_ref self' = func_ref self \<and> func self' = func self \<and>
           scheduler self' = scheduler other \<and> jobstore_alias self' = jobstore_alias other"
proof -
  from getstate_Inr [OF get] obtain v_id r' tr ex a k n m c mx nx where
    slots: "id_slot self = Some v_id" "func_ref self = Some r'"
      "trigger self = Some tr" "executor self = Some ex" "args self = Some a"
      "kwargs self = Some k" "name self = Some n" "misfire_grace_time self = Some m"
      "coalesce self = Some c" "max_instances self = Some mx" "next_run_time self = Some nx"
    and st: "state = [(''version'', PInt 1), (''id'', v_id), (''func'', r'), (''trigger'', tr),
                    (''executor'', ex), (''args'', a), (''kwargs'', k), (''name'', n),
                    (''misfire_grace_time'', m), (''coalesce'', c), (''max_instances'', mx),
                    (''next_run_time'', nx)]"
    by blast
  from slots(2) ref have r: "r' = r" by simp
  have "job_setstate E state other =
          (Inr (), other\<lparr>id_slot := Some v_id, func_ref := Some r, func := Some f,
             trigger := Some tr, executor := Some ex, args := Some a, kwargs := Some k,
             name := Some n, misfire_grace_time := Some m, coalesce := Some c,
             max_instances := Some mx, next_run_time := Some nx\<rparr>)"
    unfolding st r
    by (simp add: job_setstate_def version_tag_def greater_than_1_def setstate_steps_def
          load_item_def load_func_def item_def bind_err_def read_slot_def reg)
  then show ?thesis using slots r fn by simp
qed

theorem setstate_getstate_roundtrip_witness:
  "job_getstate scenario_job = Inr ((''version'', PInt 1) # unversioned_state) \<and>
   job_setstate demo_env ((''version'', PInt 1) # unversioned_state) new_job
     = (Inr (), scenario_job\<lparr>scheduler := None, jobstore_alias := None\<rparr>)"
proof -
  have g: "job_getstate scenario_job = Inr ((''version'', PInt 1) # unversioned_state)"
    by (simp add: job_getstate_def bind_err_def read_slot_def scenario_job_def
          unversioned_state_def)
  have r: "func_ref scenario_job = Some (PStr ''mod:f'')"
    and f: "func scenario_job = Some (PFunc 0)"
    by (simp_all add: scenario_job_def)
  have e: "ref_to_obj demo_env (PStr ''mod:f'') = Inr (PFunc 0)"
    by (simp add: demo_env_def)
  from setstate_getstate_roundtrip [OF g r f e, of new_job]
  obtain self' where s: "job_setstate demo_env ((''version'', PInt 1) # unversioned_state) new_job = (Inr (), self')"
    and eqs: "id_slot self' = id_slot scenario_job" "executor self' = executor scenario_job"
      "args self' = args scenario_job" "kwargs self' = kwargs scenario_job"
      "name self' = name scenario_job"
      "misfire_grace_time self' = misfire_grace_time scenario_job"
      "coalesce self' = coalesce scenario_job" "max_instances self' = max_instances scenario_job"
      "next_run_time self' = next_run_time scenario_job" "trigger self' = trigger scenario_job"
      "func_ref self' = func_ref scenario_job" "func self' = func scenario_job"
      "scheduler self' = scheduler new_job" "jobstore_alias self' = jobstore_alias new_job"
    by blast
  have "self' = scenario_job\<lparr>scheduler := None, jobstore_alias := None\<rparr>"
    using eqs by (cases self') (simp add: scenario_job_def new_job_def)
  with s g show ?thesis by simp
qed

section \<open>Properties of the validated mutation\<close>

lemma bind_err_Inr:
  "bind_err m f = Inr y \<Longrightarrow> \<exists>x. m = Inr x \<and> f x = Inr y"
  by (cases m) (simp_all add: bind_err_def)

text \<open>The id block leaves the other entries of \<open>changes\<close> alone; a pop returns the entry of
  \<open>changes\<close> when there is one.\<close>

lemma modify_id_keeps:
  assumes "modify_id self (c, ap) = Inr (c', ap')" and "key \<noteq> ''id''"
  shows "map_of c' key = map_of c key"
  using assms
  by (auto simp: modify_id_def delete_conv split: option.splits if_splits)

lemma pop_or_read_value:
  assumes "pop_or_read c key slot = Inr (v, c')" and "map_of c key = Some w"
  shows "v = w \<and> c' = AList.delete key c"
  using assms by (simp add: pop_or_read_def)

lemma pop_or_read_keeps:
  assumes "pop_or_read c key slot = Inr (v, c')" and "key' \<noteq> key"
  shows "map_of c' key' = map_of c key'"
  using assms
  by (auto simp: pop_or_read_def bind_err_def read_slot_def delete_conv split: option.splits)

text \<open>What the func/args/kwargs block has done when it returns.\<close>

lemma modify_func_Inr:
  assumes "modify_func E self (c, ap) = Inr (c', ap')"
    and "has_key c ''func'' \<or> has_key c ''args'' \<or> has_key c ''kwargs''"
  shows "\<exists>f c1 a c2 k c3 g r.
           pop_or_read c ''func'' (func self) = Inr (f, c1) \<and>
           pop_or_read c1 ''args'' (args self) = Inr (a, c2) \<and>
           pop_or_read c2 ''kwargs'' (kwargs self) = Inr (k, c3) \<and>
           resolve_func E f = Inr (g, r) \<and>
           default_name E self c3 g = Inr c' \<and>
           \<not> is_string a \<and> is_iterable a \<and> is_mapping k \<and>
           check_callable_args E g a k = Inr () \<and>
           ap' = AList.update ''kwargs'' k (AList.update ''args'' a
                   (AList.update ''func_ref'' r (AList.update ''func'' g ap)))"
  using assms
  by (auto simp: modify_func_def dest!: bind_err_Inr split: if_splits)

lemma modify_func_skip:
  assumes "\<not> (has_key c ''func'' \<or> has_key c ''args'' \<or> has_key c ''kwargs'')"
  shows "modify_func E self (c, ap) = Inr (c, ap)"
  using assms by (simp add: modify_func_def)

lemma modify_func_checks:
  assumes ok: "modify_func E self (c, ap) = Inr (c', ap')"
  shows "(\<forall>a. map_of c ''args'' = Some a \<longrightarrow> \<not> is_string a \<and> is_iterable a) \<and>
         (\<forall>k. map_of c ''kwargs'' = Some k \<longrightarrow> is_mapping k)"
proof (cases "has_key c ''func'' \<or> has_key c ''args'' \<or> has_key c ''kwargs''")
  case False
  then show ?thesis by (simp add: has_key_def)
next
  case True
  from modify_func_Inr [OF ok True] obtain f c1 a c2 k c3
    where p1: "pop_or_read c ''func'' (func self) = Inr (f, c1)"
      and p2: "pop_or_read c1 ''args'' (args self) = Inr (a, c2)"
      and p3: "pop_or_read c2 ''kwargs'' (kwargs self) = Inr (k, c3)"
      and good: "\<not> is_string a" "is_iterable a" "is_mapping k"
    by blast
  have "map_of c1 ''args'' = map_of c ''args''"
    using pop_or_read_keeps [OF p1, of "''args''"] by simp
  then have a: "map_of c ''args'' = Some a' \<Longrightarrow> a' = a" for a'
    using pop_or_read_value [OF p2, of a'] by simp
  have "map_of c2 ''kwargs'' = map_of c ''kwargs''"
    using pop_or_read_keeps [OF p2, of "''kwargs''"] pop_or_read_keeps [OF p1, of "''kwargs''"]
    by simp
  then have k: "map_of c ''kwargs'' = Some k' \<Longrightarrow> k' = k" for k'
    using pop_or_read_value [OF p3, of k'] by simp
  from good a k show ?thesis by blast
qed

lemma validate_Inr_steps:
  assumes "validate E self changes = Inr approved"
  shows "run_steps (modify_steps E self) (changes, []) = Inr ([], approved)"
  using assms
  by (auto simp: validate_def dest!: bind_err_Inr split: if_splits)

lemma run_steps_first_two:
  assumes "run_steps (modify_steps E self) s = Inr s'"
  shows "\<exists>c1 ap1 c2 ap2.
           modify_id self s = Inr (c1, ap1) \<and> modify_func E self (c1, ap1) = Inr (c2, ap2)"
  using assms by (auto simp: modify_steps_def dest!: bind_err_Inr)

lemma job_modify_Inl:
  assumes "\<And>approved. validate E self changes \<noteq> Inr approved"
  shows "\<exists>e. job_modify E changes self = (Inl e, self)"
  using assms by (cases "validate E self changes") (auto simp: job_modify_def)

text \<open>
  C6.  A batch that gives \<open>args\<close> as a string or as a value that is not iterable, or gives
  \<open>kwargs\<close> as a value that is not a mapping (a string is none), makes \<open>_modify\<close> raise,
  whatever else the batch and the job hold, and the job is as it was before the call.
\<close>

theorem modify_rejects_bad_args_kwargs:
  assumes bad: "(map_of changes ''args'' = Some a \<and> (is_string a \<or> \<not> is_iterable a)) \<or>
                (map_of changes ''kwargs'' = Some k \<and> \<not> is_mapping k)"
  shows "\<exists>e. job_modify E changes self = (Inl e, self)"
proof (rule job_modify_Inl)
  fix approved
  show "validate E self changes \<noteq> Inr approved"
  proof
    assume "validate E self changes = Inr approved"
    from run_steps_first_two [OF validate_Inr_steps [OF this]]
    obtain c1 ap1 c2 ap2 where s1: "modify_id self (changes, []) = Inr (c1, ap1)"
      and s2: "modify_func E self (c1, ap1) = Inr (c2, ap2)"
      by blast
    have "map_of c1 ''args'' = map_of changes ''args''"
      and "map_of c1 ''kwargs'' = map_of changes ''kwargs''"
      using modify_id_keeps [OF s1] by simp_all
    with modify_func_checks [OF s2] bad
    show False by auto
  qed
qed

theorem modify_rejects_bad_args_kwargs_witness:
  "\<exists>e. job_modify demo_env [(''args'', PStr ''abc'')] scenario_job = (Inl e, scenario_job)"
  using modify_rejects_bad_args_kwargs [of "[(''args'', PStr ''abc'')]" "PStr ''abc''" PNone
          demo_env scenario_job]
  by simp

text \<open>
  C4.  On a job whose id is set, a batch with an \<open>id\<close> entry of any value makes \<open>_modify\<close>
  raise, \<open>ValueError\<close> for a string and \<open>TypeError\<close> for any other value, and the job, its
  id included, is as it was before the call.
\<close>

theorem modify_id_immutable:
  assumes "id_slot self = Some old" and "map_of changes ''id'' = Some v"
  shows "job_modify E changes self =
           (Inl (if is_string v then ValueError ''The job ID may not be changed''
                 else TypeError ''id must be a nonempty string''), self)"
  using assms
  by (simp add: job_modify_def validate_def modify_steps_def modify_id_def bind_err_def)

theorem modify_id_immutable_witness:
  "job_modify demo_env [(''id'', PStr ''job2''), (''name'', PStr ''g'')] scenario_job =
     (Inl (ValueError ''The job ID may not be changed''), scenario_job)"
  using modify_id_immutable [of scenario_job "PStr ''job1''"
          "[(''id'', PStr ''job2''), (''name'', PStr ''g'')]" "PStr ''job2''" demo_env]
  by (simp add: scenario_job_def)


text \<open>\<open>__init__\<close> puts \<open>uuid4().hex\<close> in the place of an id that is false, the empty
  string included, before \<open>_modify\<close> sees it.\<close>

lemma init_replaces_false_id:
  "\<not> truthy idv \<Longrightarrow>
   job_init E sched idv kws =
     job_modify E ((''id'', PStr (uuid4_hex E)) # kws)
       (new_job\<lparr>scheduler := Some sched, jobstore_alias := Some PNone\<rparr>)"
  by (simp add: job_init_def)

text \<open>The keys after \<open>pop\<close> and after an assignment to an item; the relation \<open>advances\<close>
  is reflexive, composes, and can be weakened.\<close>

lemma keys_delete: "keys (AList.delete k c) = keys c - {k}"
  by (auto simp: keys_def AList.delete_eq)

lemma keys_update: "keys (AList.update k v c) = insert k (keys c)"
  by (simp add: keys_def dom_update)

lemma keys_map_of: "k \<in> keys c \<longleftrightarrow> map_of c k \<noteq> None"
  by (simp add: keys_def map_of_eq_None_iff)

lemma advances_refl: "advances D W s s"
  by (cases s) (simp add: advances.simps)

lemma advances_trans:
  assumes "advances D1 W1 s s'" and "advances D2 W2 s' s''"
  shows "advances (D1 \<union> D2) (W1 \<union> W2) s s''"
proof -
  obtain c ap c' ap' c'' ap'' where s: "s = (c, ap)" "s' = (c', ap')" "s'' = (c'', ap'')"
    by (cases s, cases s', cases s'') blast
  from assms show ?thesis unfolding s
    by (simp only: advances.simps) (intro conjI; (blast | fastforce))
qed

lemma advances_mono:
  "advances D W s s' \<Longrightarrow> D \<subseteq> D' \<Longrightarrow> W \<subseteq> W' \<Longrightarrow> advances D' W' s s'"
  by (cases s, cases s') (simp only: advances.simps, intro conjI; (blast | fastforce))

lemma advances_approve:
  "advances {key} {key} (c, ap) (AList.delete key c, AList.update key v ap)"
  by (auto simp: advances.simps keys_delete keys_update distinct_update update_conv')

lemma advances_write:
  "advances {} {key} (c, ap) (c, AList.update key v ap)"
  by (auto simp: advances.simps keys_update distinct_update update_conv')

lemma advances_name: "advances {} {} (c, ap) (AList.update key v c, ap)"
  by (auto simp: advances.simps keys_update)


text \<open>Each block advances the two dictionaries, on its own keys only.\<close>

lemma pop_or_read_advances:
  assumes "pop_or_read c key slot = Inr (v, c')"
  shows "advances {key} {key} (c, ap) (c', AList.update key w ap)"
proof (cases "map_of c key")
  case None
  with assms have "c' = c"
    by (auto simp: pop_or_read_def dest!: bind_err_Inr)
  then show ?thesis
    using advances_mono [OF advances_write [of key c ap w], of "{key}" "{key}"] by simp
next
  case (Some u)
  with assms have "c' = AList.delete key c" by (simp add: pop_or_read_def)
  then show ?thesis by (simp add: advances_approve)
qed

lemma default_name_advances:
  assumes "default_name E self c f = Inr c'"
  shows "advances {} {} (c, ap) (c', ap)"
  using assms
  by (auto simp: default_name_def advances_refl advances_name dest!: bind_err_Inr
        split: if_splits)

lemma modify_id_advances:
  "modify_id self s = Inr s' \<Longrightarrow> advances {''id''} {''id''} s s'"
  by (cases s) (auto simp: modify_id_def advances_refl advances_approve
        split: option.splits if_splits)

lemma modify_name_advances:
  "modify_name s = Inr s' \<Longrightarrow> advances {''name''} {''name''} s s'"
  by (cases s) (auto simp: modify_name_def advances_refl advances_approve
        split: option.splits if_splits)

lemma modify_misfire_grace_time_advances:
  "modify_misfire_grace_time s = Inr s' \<Longrightarrow>
   advances {''misfire_grace_time''} {''misfire_grace_time''} s s'"
  by (cases s) (auto simp: modify_misfire_grace_time_def advances_refl advances_approve
        split: option.splits if_splits)

lemma modify_coalesce_advances:
  "modify_coalesce s = Inr s' \<Longrightarrow> advances {''coalesce''} {''coalesce''} s s'"
  by (cases s) (auto simp: modify_coalesce_def advances_refl advances_approve
        split: option.splits if_splits)

lemma modify_max_instances_advances:
  "modify_max_instances s = Inr s' \<Longrightarrow>
   advances {''max_instances''} {''max_instances''} s s'"
  by (cases s) (auto simp: modify_max_instances_def advances_refl advances_approve
        split: option.splits if_splits)

lemma modify_trigger_advances:
  "modify_trigger s = Inr s' \<Longrightarrow> advances {''trigger''} {''trigger''} s s'"
  by (cases s) (auto simp: modify_trigger_def advances_refl advances_approve
        split: option.splits if_splits)

lemma modify_executor_advances:
  "modify_executor s = Inr s' \<Longrightarrow> advances {''executor''} {''executor''} s s'"
  by (cases s) (auto simp: modify_executor_def advances_refl advances_approve
        split: option.splits if_splits)

lemma modify_next_run_time_advances:
  "modify_next_run_time E self s = Inr s' \<Longrightarrow>
   advances {''next_run_time''} {''next_run_time''} s s'"
  by (cases s) (auto simp: modify_next_run_time_def advances_refl advances_approve
        dest!: bind_err_Inr split: option.splits if_splits)

lemma modify_func_advances:
  assumes ok: "modify_func E self s = Inr s'"
  shows "advances {''func'', ''args'', ''kwargs''}
           {''func'', ''func_ref'', ''args'', ''kwargs''} s s'"
proof -
  obtain c ap c' ap' where s: "s = (c, ap)" "s' = (c', ap')"
    by (cases s, cases s') blast
  show ?thesis
  proof (cases "has_key c ''func'' \<or> has_key c ''args'' \<or> has_key c ''kwargs''")
    case False
    with ok show ?thesis unfolding s by (simp add: modify_func_skip advances_refl)
  next
    case True
    from modify_func_Inr [OF ok [unfolded s] True] obtain f c1 a c2 k c3 g r
      where p1: "pop_or_read c ''func'' (func self) = Inr (f, c1)"
        and p2: "pop_or_read c1 ''args'' (args self) = Inr (a, c2)"
        and p3: "pop_or_read c2 ''kwargs'' (kwargs self) = Inr (k, c3)"
        and dn: "default_name E self c3 g = Inr c'"
        and ap': "ap' = AList.update ''kwargs'' k (AList.update ''args'' a
                   (AList.update ''func_ref'' r (AList.update ''func'' g ap)))"
      by blast
    let ?ap1 = "AList.update ''func'' g ap"
    let ?ap2 = "AList.update ''func_ref'' r ?ap1"
    let ?ap3 = "AList.update ''args'' a ?ap2"
    let ?ap4 = "AList.update ''kwargs'' k ?ap3"
    note t1 = advances_trans [OF pop_or_read_advances [OF p1, of ap g]
                advances_write [of "''func_ref''" c1 ?ap1 r]]
    note t2 = advances_trans [OF t1 pop_or_read_advances [OF p2, of ?ap2 a]]
    note t3 = advances_trans [OF t2 pop_or_read_advances [OF p3, of ?ap3 k]]
    note t4 = advances_trans [OF t3 default_name_advances [OF dn, of ?ap4]]
    from t4 show ?thesis unfolding s ap'
      by (rule advances_mono) auto
  qed
qed

text \<open>A run of all the blocks that returns went through every block in turn, and so
  advances the dictionaries on the modifiable keys only.\<close>

lemma tail_steps_Inr:
  assumes "run_steps (tail_steps E self) s = Inr s'"
  shows "\<exists>s1 s2 s3 s4 s5 s6.
           modify_name s = Inr s1 \<and> modify_misfire_grace_time s1 = Inr s2 \<and>
           modify_coalesce s2 = Inr s3 \<and> modify_max_instances s3 = Inr s4 \<and>
           modify_trigger s4 = Inr s5 \<and> modify_executor s5 = Inr s6 \<and>
           modify_next_run_time E self s6 = Inr s'"
proof -
  from assms obtain s1 where 1: "modify_name s = Inr s1"
    and r1: "run_steps (tl (tail_steps E self)) s1 = Inr s'"
    by (auto simp: tail_steps_def dest: bind_err_Inr)
  from r1 obtain s2 where 2: "modify_misfire_grace_time s1 = Inr s2"
    and r2: "run_steps (tl (tl (tail_steps E self))) s2 = Inr s'"
    by (auto simp: tail_steps_def dest: bind_err_Inr)
  from r2 obtain s3 where 3: "modify_coalesce s2 = Inr s3"
    and r3: "run_steps (tl (tl (tl (tail_steps E self)))) s3 = Inr s'"
    by (auto simp: tail_steps_def dest: bind_err_Inr)
  from r3 obtain s4 where 4: "modify_max_instances s3 = Inr s4"
    and r4: "run_steps (tl (tl (tl (tl (tail_steps E self))))) s4 = Inr s'"
    by (auto simp: tail_steps_def dest: bind_err_Inr)
  from r4 obtain s5 where 5: "modify_trigger s4 = Inr s5"
    and r5: "run_steps (tl (tl (tl (tl (tl (tail_steps E self)))))) s5 = Inr s'"
    by (auto simp: tail_steps_def dest: bind_err_Inr)
  from r5 obtain s6 where 6: "modify_executor s5 = Inr s6"
    and r6: "run_steps [modify_next_run_time E self] s6 = Inr s'"
    by (auto simp: tail_steps_def dest: bind_err_Inr)
  from r6 have r6: "modify_next_run_time E self s6 = Inr s'"
    by (auto dest: bind_err_Inr)
  from 1 2 3 4 5 6 r6 show ?thesis by blast
qed

lemma tail_steps_advances:
  assumes "run_steps (tail_steps E self) s = Inr s'"
  shows "advances (set tail_keys) (set tail_keys) s s'"
proof -
  from tail_steps_Inr [OF assms] obtain s1 s2 s3 s4 s5 s6 where
    st: "modify_name s = Inr s1" "modify_misfire_grace_time s1 = Inr s2"
      "modify_coalesce s2 = Inr s3" "modify_max_instances s3 = Inr s4"
      "modify_trigger s4 = Inr s5" "modify_executor s5 = Inr s6"
      "modify_next_run_time E self s6 = Inr s'"
    by blast
  note t1 = advances_trans [OF modify_name_advances [OF st(1)]
              modify_misfire_grace_time_advances [OF st(2)]]
  note t2 = advances_trans [OF t1 modify_coalesce_advances [OF st(3)]]
  note t3 = advances_trans [OF t2 modify_max_instances_advances [OF st(4)]]
  note t4 = advances_trans [OF t3 modify_trigger_advances [OF st(5)]]
  note t5 = advances_trans [OF t4 modify_executor_advances [OF st(6)]]
  note t6 = advances_trans [OF t5 modify_next_run_time_advances [OF st(7)]]
  from t6 show ?thesis
    by (rule advances_mono) (simp_all add: tail_keys_def)
qed

lemma modify_steps_split:
  assumes "run_steps (modify_steps E self) s = Inr s'"
  shows "\<exists>s1 s2. modify_id self s = Inr s1 \<and> modify_func E self s1 = Inr s2 \<and>
           run_steps (tail_steps E self) s2 = Inr s'"
proof -
  have steps: "modify_steps E self = modify_id self # modify_func E self # tail_steps E self"
    by (simp add: modify_steps_def tail_steps_def)
  from assms obtain s1 where 1: "modify_id self s = Inr s1"
    and r1: "run_steps (modify_func E self # tail_steps E self) s1 = Inr s'"
    unfolding steps by (auto dest: bind_err_Inr)
  from r1 obtain s2 where 2: "modify_func E self s1 = Inr s2"
    and r2: "run_steps (tail_steps E self) s2 = Inr s'"
    by (auto dest: bind_err_Inr)
  from 1 2 r2 show ?thesis by blast
qed

lemma modify_steps_advances:
  assumes "run_steps (modify_steps E self) s = Inr s'"
  shows "advances (set modifiable) (set approvable) s s'"
proof -
  from assms obtain s1 s2 where a: "modify_id self s = Inr s1"
    and b: "modify_func E self s1 = Inr s2"
    and c: "run_steps (tail_steps E self) s2 = Inr s'"
    using modify_steps_split by blast
  note t = advances_trans [OF advances_trans [OF modify_id_advances [OF a]
             modify_func_advances [OF b]] tail_steps_advances [OF c]]
  from t show ?thesis
    by (rule advances_mono) (simp_all add: modifiable_def approvable_def tail_keys_def)
qed

text \<open>The final loop: \<open>setattr\<close> on a slot name changes that slot only, and every key of
  \<open>approved\<close> is a slot name, so the loop never raises.\<close>

lemma setattr_getattr_same:
  assumes "setattr self key v = Inr self'"
  shows "getattr self' key = Some v"
  using assms unfolding setattr_def
  by (clarsimp split: if_splits) (simp_all add: getattr_def)

lemma setattr_getattr_other:
  assumes "setattr self key v = Inr self'" and "k \<noteq> key"
  shows "getattr self' k = getattr self k"
  using assms unfolding setattr_def
  by (clarsimp split: if_splits)
     (simp_all add: getattr_def split del: if_split cong: if_cong)

lemma setattr_getattr:
  assumes "setattr self key v = Inr self'"
  shows "getattr self' k = (if k = key then Some v else getattr self k)"
  using setattr_getattr_same [OF assms] setattr_getattr_other [OF assms, of k] by simp

lemma setattr_approvable:
  assumes "key \<in> set approvable"
  shows "\<exists>self'. setattr self key v = Inr self'"
  using assms by (auto simp: approvable_def modifiable_def setattr_def)

lemma set_all_commits:
  assumes "keys ap \<subseteq> set approvable" and "distinct (map fst ap)"
  shows "\<exists>self'. set_all ap self = (Inr (), self') \<and>
           (\<forall>k. getattr self' k = (case map_of ap k of Some v \<Rightarrow> Some v | None \<Rightarrow> getattr self k))"
  using assms
proof (induction ap arbitrary: self)
  case Nil
  then show ?case by simp
next
  case (Cons kv ap)
  obtain key v where kv: "kv = (key, v)" by (cases kv)
  from Cons.prems kv have key: "key \<in> set approvable" and sub: "keys ap \<subseteq> set approvable"
    and notin: "key \<notin> fst ` set ap" and dist: "distinct (map fst ap)"
    by (auto simp: keys_def)
  from setattr_approvable [OF key] obtain s1 where s1: "setattr self key v = Inr s1"
    by blast
  from Cons.IH [OF sub dist, of s1] obtain self' where
    run: "set_all ap s1 = (Inr (), self')"
    and get: "\<And>k. getattr self' k = (case map_of ap k of Some v \<Rightarrow> Some v | None \<Rightarrow> getattr s1 k)"
    by blast
  from notin have none: "map_of ap key = None"
    by (simp add: map_of_eq_None_iff)
  have "set_all (kv # ap) self = (Inr (), self')"
    using s1 run kv by simp
  moreover have "getattr self' k =
      (case map_of (kv # ap) k of Some v \<Rightarrow> Some v | None \<Rightarrow> getattr self k)" for k
    using get [of k] setattr_getattr [OF s1, of k] none kv
    by (auto split: option.splits)
  ultimately show ?case by blast
qed

text \<open>No block touches the entry of a key that is not its own, in either dictionary, and
  the blocks of the verbatim keys move the proposed value to \<open>approved\<close> unchanged.\<close>

lemma settled_other:
  assumes "map_of c' k = map_of c k" and "map_of ap' k = map_of ap k"
    and "settled k c0 (c, ap)"
  shows "settled k c0 (c', ap')"
  using assms by (simp add: settled_def)

lemma modify_id_settled:
  assumes "modify_id self s = Inr s'" and "settled k c0 s"
  shows "settled k c0 s'"
  using assms
  by (cases s) (auto simp: modify_id_def settled_def delete_conv update_conv'
        split: option.splits if_splits)

lemma modify_name_settled:
  assumes "modify_name s = Inr s'" and "k \<noteq> ''name''" and "settled k c0 s"
  shows "settled k c0 s'"
  using assms
  by (cases s) (auto simp: modify_name_def settled_def delete_conv update_conv'
        split: option.splits if_splits)

lemma modify_misfire_grace_time_settled:
  assumes "modify_misfire_grace_time s = Inr s'" and "settled k c0 s"
  shows "settled k c0 s'"
  using assms
  by (cases s) (auto simp: modify_misfire_grace_time_def settled_def delete_conv update_conv'
        split: option.splits if_splits)

lemma modify_coalesce_settled:
  assumes "modify_coalesce s = Inr s'" and "k \<noteq> ''coalesce''" and "settled k c0 s"
  shows "settled k c0 s'"
  using assms
  by (cases s) (auto simp: modify_coalesce_def settled_def delete_conv update_conv'
        split: option.splits if_splits)

lemma modify_max_instances_settled:
  assumes "modify_max_instances s = Inr s'" and "settled k c0 s"
  shows "settled k c0 s'"
  using assms
  by (cases s) (auto simp: modify_max_instances_def settled_def delete_conv update_conv'
        split: option.splits if_splits)

lemma modify_trigger_settled:
  assumes "modify_trigger s = Inr s'" and "settled k c0 s"
  shows "settled k c0 s'"
  using assms
  by (cases s) (auto simp: modify_trigger_def settled_def delete_conv update_conv'
        split: option.splits if_splits)

lemma modify_executor_settled:
  assumes "modify_executor s = Inr s'" and "settled k c0 s"
  shows "settled k c0 s'"
  using assms
  by (cases s) (auto simp: modify_executor_def settled_def delete_conv update_conv'
        split: option.splits if_splits)

lemma modify_next_run_time_settled:
  assumes "modify_next_run_time E self s = Inr s'" and "k \<noteq> ''next_run_time''"
    and "settled k c0 s"
  shows "settled k c0 s'"
  using assms
  by (cases s) (auto simp: modify_next_run_time_def settled_def delete_conv update_conv'
        dest!: bind_err_Inr split: option.splits if_splits)

lemma default_name_keeps:
  assumes "default_name E self c f = Inr c'" and "k \<noteq> ''name''"
  shows "map_of c' k = map_of c k"
  using assms
  by (auto simp: default_name_def update_conv' dest!: bind_err_Inr split: if_splits)

lemma modify_func_settled:
  assumes ok: "modify_func E self s = Inr s'"
    and k: "k \<notin> {''func'', ''func_ref'', ''args'', ''kwargs'', ''name''}"
    and st: "settled k c0 s"
  shows "settled k c0 s'"
proof -
  obtain c ap c' ap' where s: "s = (c, ap)" "s' = (c', ap')"
    by (cases s, cases s') blast
  show ?thesis
  proof (cases "has_key c ''func'' \<or> has_key c ''args'' \<or> has_key c ''kwargs''")
    case False
    with ok st show ?thesis unfolding s by (simp add: modify_func_skip)
  next
    case True
    from modify_func_Inr [OF ok [unfolded s] True] obtain f c1 a c2 kw c3 g r
      where p1: "pop_or_read c ''func'' (func self) = Inr (f, c1)"
        and p2: "pop_or_read c1 ''args'' (args self) = Inr (a, c2)"
        and p3: "pop_or_read c2 ''kwargs'' (kwargs self) = Inr (kw, c3)"
        and dn: "default_name E self c3 g = Inr c'"
        and ap': "ap' = AList.update ''kwargs'' kw (AList.update ''args'' a
                   (AList.update ''func_ref'' r (AList.update ''func'' g ap)))"
      by blast
    from k have ne: "k \<noteq> ''func''" "k \<noteq> ''func_ref''" "k \<noteq> ''args''" "k \<noteq> ''kwargs''"
      "k \<noteq> ''name''" by simp_all
    have "map_of c' k = map_of c k"
      using pop_or_read_keeps [OF p1 ne(1)] pop_or_read_keeps [OF p2 ne(3)]
        pop_or_read_keeps [OF p3 ne(4)] default_name_keeps [OF dn ne(5)]
      by simp
    moreover have "map_of ap' k = map_of ap k"
      unfolding ap' using ne by (simp add: update_conv')
    ultimately show ?thesis using st unfolding s by (rule settled_other)
  qed
qed

lemma verbatim_keys_approved:
  assumes run: "run_steps (modify_steps E self) (changes, []) = Inr ([], approved)"
    and k: "k \<in> set verbatim_keys"
  shows "map_of approved k = map_of changes k"
proof -
  from modify_steps_split [OF run] obtain s1 s2 where
    a: "modify_id self (changes, []) = Inr s1" and b: "modify_func E self s1 = Inr s2"
    and t: "run_steps (tail_steps E self) s2 = Inr ([], approved)"
    by blast
  from tail_steps_Inr [OF t] obtain s3 s4 s5 s6 s7 s8 where
    st: "modify_name s2 = Inr s3" "modify_misfire_grace_time s3 = Inr s4"
      "modify_coalesce s4 = Inr s5" "modify_max_instances s5 = Inr s6"
      "modify_trigger s6 = Inr s7" "modify_executor s7 = Inr s8"
      "modify_next_run_time E self s8 = Inr ([], approved)"
    by blast
  from k have ne: "k \<notin> {''func'', ''func_ref'', ''args'', ''kwargs'', ''name''}"
    "k \<noteq> ''name''" "k \<noteq> ''coalesce''" "k \<noteq> ''next_run_time''"
    by (auto simp: verbatim_keys_def)
  have "settled k changes (changes, [])" by (simp add: settled_def)
  from modify_id_settled [OF a this] have "settled k changes s1" .
  from modify_func_settled [OF b ne(1) this] have "settled k changes s2" .
  from modify_name_settled [OF st(1) ne(2) this] have "settled k changes s3" .
  from modify_misfire_grace_time_settled [OF st(2) this] have "settled k changes s4" .
  from modify_coalesce_settled [OF st(3) ne(3) this] have "settled k changes s5" .
  from modify_max_instances_settled [OF st(4) this] have "settled k changes s6" .
  from modify_trigger_settled [OF st(5) this] have "settled k changes s7" .
  from modify_executor_settled [OF st(6) this] have "settled k changes s8" .
  from modify_next_run_time_settled [OF st(7) ne(4) this]
  have "settled k changes ([], approved)" .
  then show ?thesis by (auto simp: settled_def)
qed

text \<open>When validation returns, the final loop commits all of \<open>approved\<close>.\<close>

lemma validate_Inr_advances:
  assumes "validate E self changes = Inr approved"
  shows "advances (set modifiable) (set approvable) (changes, []) ([], approved)"
  using modify_steps_advances [OF validate_Inr_steps [OF assms]] .

lemma keys_Nil: "keys [] = {}"
  by (simp add: keys_def)

lemma validate_Inr_commits:
  assumes v: "validate E self changes = Inr approved"
  shows "\<exists>self'. job_modify E changes self = (Inr (), self') \<and>
           (\<forall>k\<in>keys changes. k \<in> keys approved \<and> k \<in> set modifiable) \<and>
           (\<forall>k\<in>set verbatim_keys. map_of approved k = map_of changes k) \<and>
           (\<forall>k. getattr self' k =
                  (case map_of approved k of Some v \<Rightarrow> Some v | None \<Rightarrow> getattr self k))"
proof -
  note inv = validate_Inr_advances [OF v, unfolded advances.simps]
  from inv have known: "\<forall>k. k \<in> keys changes \<and> k \<notin> set modifiable \<longrightarrow> k \<in> keys []"
    by (elim conjE)
  from inv have moved: "\<forall>k. k \<in> keys changes \<longrightarrow> k \<in> keys [] \<or> k \<in> keys approved"
    by (elim conjE)
  from inv have sub: "keys approved \<subseteq> keys [] \<union> set approvable"
    by (elim conjE)
  from sub have sub': "keys approved \<subseteq> set approvable" by (simp add: keys_Nil)
  from inv have dist': "distinct (map fst approved)" by simp
  from set_all_commits [OF sub' dist', of self] obtain self' where
    run: "set_all approved self = (Inr (), self')"
    and get: "\<forall>k. getattr self' k =
                  (case map_of approved k of Some v \<Rightarrow> Some v | None \<Rightarrow> getattr self k)"
    by blast
  have jm: "job_modify E changes self = (Inr (), self')"
    using v run by (simp add: job_modify_def)
  have cov: "\<forall>k\<in>keys changes. k \<in> keys approved \<and> k \<in> set modifiable"
    using known moved unfolding keys_Nil by blast
  have same: "\<forall>k\<in>set verbatim_keys. map_of approved k = map_of changes k"
    using verbatim_keys_approved [OF validate_Inr_steps [OF v]] by blast
  from jm cov same get show ?thesis by (intro exI [of _ self'] conjI)
qed



lemma scenario_batch_rejected:
  "job_modify demo_env [(''name'', PStr ''g''), (''max_instances'', PInt 0)] scenario_job =
     (Inl (TypeError ''max_instances must be a positive integer''), scenario_job)"
  by (simp add: job_modify_def validate_def modify_steps_def modify_id_def modify_func_def
        modify_name_def modify_misfire_grace_time_def modify_coalesce_def
        modify_max_instances_def modify_trigger_def modify_executor_def
        modify_next_run_time_def has_key_def bind_err_def)


text \<open>The batch \<open>func=f\<close> alone, and what any successful batch with \<open>func\<close> commits.\<close>

lemma callable_not_string: "is_callable f \<Longrightarrow> \<not> is_string f"
  by (cases f) simp_all

lemma mapping_not_string: "is_mapping k \<Longrightarrow> \<not> is_string k"
  by (cases k) simp_all

lemma resolve_func_callable:
  assumes "is_callable f"
  shows "resolve_func E f =
           (case obj_to_ref E f of Inr r \<Rightarrow> Inr (f, r)
            | Inl (ValueError m) \<Rightarrow> Inr (f, PNone) | Inl e \<Rightarrow> Inl e)"
  using assms callable_not_string [OF assms] by (simp add: resolve_func_def)

lemma modify_func_alone:
  assumes res: "resolve_func E f = Inr (f, r)"
    and slots: "args self = Some a" "kwargs self = Some k" "name self = Some n"
    and good: "\<not> is_string a" "is_iterable a" "is_mapping k"
    and chk: "check_callable_args E f a k = Inr ()"
  shows "job_modify E [(''func'', f)] self =
           (Inr (), self\<lparr>func := Some f, func_ref := Some r, args := Some a, kwargs := Some k\<rparr>)"
proof -
  have id: "modify_id self ([(''func'', f)], []) = Inr ([(''func'', f)], [])"
    by (simp add: modify_id_def)
  have fn: "modify_func E self ([(''func'', f)], []) =
              Inr ([], [(''func'', f), (''func_ref'', r), (''args'', a), (''kwargs'', k)])"
    using res slots good chk mapping_not_string [OF good(3)]
    by (simp add: modify_func_def has_key_def pop_or_read_def read_slot_def bind_err_def
          default_name_def)
  have tl: "run_steps (tail_steps E self) ([], ap) = Inr ([], ap)" for ap
    by (simp add: tail_steps_def modify_name_def modify_misfire_grace_time_def
          modify_coalesce_def modify_max_instances_def modify_trigger_def modify_executor_def
          modify_next_run_time_def bind_err_def)
  have steps: "modify_steps E self = modify_id self # modify_func E self # tail_steps E self"
    by (simp add: modify_steps_def tail_steps_def)
  have "validate E self [(''func'', f)] =
          Inr [(''func'', f), (''func_ref'', r), (''args'', a), (''kwargs'', k)]"
    by (simp add: validate_def steps id fn tl bind_err_def)
  then show ?thesis
    by (simp add: job_modify_def setattr_def)
qed

lemma job_modify_Inr_validate:
  assumes "job_modify E changes self = (Inr (), self')"
  shows "\<exists>approved. validate E self changes = Inr approved"
  using assms by (cases "validate E self changes") (simp_all add: job_modify_def)

lemma modify_func_commits:
  assumes ch: "map_of changes ''func'' = Some f"
    and ok: "job_modify E changes self = (Inr (), self')"
  shows "\<exists>g r. resolve_func E f = Inr (g, r) \<and> func self' = Some g \<and> func_ref self' = Some r"
proof -
  from job_modify_Inr_validate [OF ok] obtain approved where
    v: "validate E self changes = Inr approved" by blast
  from validate_Inr_commits [OF v] ok have
    get: "\<And>k. getattr self' k =
            (case map_of approved k of Some v \<Rightarrow> Some v | None \<Rightarrow> getattr self k)"
    by auto
  from modify_steps_split [OF validate_Inr_steps [OF v]] obtain c1 ap1 c2 ap2 where
    s1: "modify_id self (changes, []) = Inr (c1, ap1)"
    and s2: "modify_func E self (c1, ap1) = Inr (c2, ap2)"
    and s3: "run_steps (tail_steps E self) (c2, ap2) = Inr ([], approved)"
    by (metis surj_pair)
  from modify_id_keeps [OF s1, of "''func''"] ch have c1: "map_of c1 ''func'' = Some f"
    by simp
  then have "has_key c1 ''func'' \<or> has_key c1 ''args'' \<or> has_key c1 ''kwargs''"
    by (simp add: has_key_def)
  from modify_func_Inr [OF s2 this] obtain f0 c1' a k g r where
    p1: "pop_or_read c1 ''func'' (func self) = Inr (f0, c1')"
    and res: "resolve_func E f0 = Inr (g, r)"
    and ap2: "ap2 = AList.update ''kwargs'' k (AList.update ''args'' a
                   (AList.update ''func_ref'' r (AList.update ''func'' g ap1)))"
    by blast
  from pop_or_read_value [OF p1 c1] have f0: "f0 = f" by simp
  have m2: "map_of ap2 ''func'' = Some g" "map_of ap2 ''func_ref'' = Some r"
    unfolding ap2 by (simp_all add: update_conv')
  note inv = tail_steps_advances [OF s3, unfolded advances.simps]
  from inv have keep: "\<forall>k. k \<notin> set tail_keys \<longrightarrow> map_of approved k = map_of ap2 k"
    by (elim conjE)
  have "map_of approved ''func'' = Some g" "map_of approved ''func_ref'' = Some r"
    using keep m2 by (simp_all add: tail_keys_def)
  with get [of "''func''"] get [of "''func_ref''"]
  have "func self' = Some g" "func_ref self' = Some r"
    by (simp_all add: getattr_def)
  with res f0 show ?thesis by blast
qed

lemma getstate_not_serializable:
  "job_getstate self = Inl not_serializable \<longleftrightarrow>
     (\<exists>r f. func_ref self = Some r \<and> \<not> truthy r \<and> func self = Some f)"
  by (auto simp: job_getstate_def bind_err_def read_slot_def not_serializable_def
        split: option.splits)

text \<open>
  C7.  For a callable \<open>f\<close> for which \<open>obj_to_ref\<close> raises \<open>ValueError\<close>: the batch
  \<open>func=f\<close> on a job that has a name, and whose stored args and kwargs are of the right
  kinds and fit \<open>f\<close>, succeeds and records \<open>None\<close> as textual reference; after any
  successful batch that sets \<open>func\<close> to \<open>f\<close> the reference is \<open>None\<close> and \<open>__getstate__\<close>
  raises the error of a job that cannot be serialized.  For a callable for which
  \<open>obj_to_ref\<close> returns a reference that is true, after any successful batch that sets it
  the reference is stored and \<open>__getstate__\<close> does not raise that error.
\<close>

theorem func_reference_decides_serialization:
  "(is_callable f \<and> obj_to_ref E f = Inl (ValueError m) \<and>
      args self = Some a \<and> kwargs self = Some k \<and> name self = Some n \<and>
      \<not> is_string a \<and> is_iterable a \<and> is_mapping k \<and>
      check_callable_args E f a k = Inr ()
    \<longrightarrow> job_modify E [(''func'', f)] self =
          (Inr (), self\<lparr>func := Some f, func_ref := Some PNone,
                         args := Some a, kwargs := Some k\<rparr>)) \<and>
   (is_callable f \<and> obj_to_ref E f = Inl (ValueError m) \<and>
      map_of changes ''func'' = Some f \<and> job_modify E changes self = (Inr (), self')
    \<longrightarrow> func self' = Some f \<and> func_ref self' = Some PNone \<and>
        job_getstate self' = Inl not_serializable) \<and>
   (is_callable f \<and> obj_to_ref E f = Inr r \<and> truthy r \<and>
      map_of changes ''func'' = Some f \<and> job_modify E changes self = (Inr (), self')
    \<longrightarrow> func self' = Some f \<and> func_ref self' = Some r \<and>
        job_getstate self' \<noteq> Inl not_serializable)"
proof -
  have one: "is_callable f \<and> obj_to_ref E f = Inl (ValueError m) \<and>
      args self = Some a \<and> kwargs self = Some k \<and> name self = Some n \<and>
      \<not> is_string a \<and> is_iterable a \<and> is_mapping k \<and>
      check_callable_args E f a k = Inr ()
    \<longrightarrow> job_modify E [(''func'', f)] self =
          (Inr (), self\<lparr>func := Some f, func_ref := Some PNone,
                         args := Some a, kwargs := Some k\<rparr>)"
  proof (rule impI)
    assume h: "is_callable f \<and> obj_to_ref E f = Inl (ValueError m) \<and>
      args self = Some a \<and> kwargs self = Some k \<and> name self = Some n \<and>
      \<not> is_string a \<and> is_iterable a \<and> is_mapping k \<and>
      check_callable_args E f a k = Inr ()"
    then have res: "resolve_func E f = Inr (f, PNone)"
      by (simp add: resolve_func_callable)
    from h have "args self = Some a" "kwargs self = Some k" "name self = Some n"
      "\<not> is_string a" "is_iterable a" "is_mapping k" "check_callable_args E f a k = Inr ()"
      by simp_all
    then show "job_modify E [(''func'', f)] self =
          (Inr (), self\<lparr>func := Some f, func_ref := Some PNone,
                         args := Some a, kwargs := Some k\<rparr>)"
      by (rule modify_func_alone [OF res])
  qed
  have two: "is_callable f \<and> obj_to_ref E f = Inl (ValueError m) \<and>
      map_of changes ''func'' = Some f \<and> job_modify E changes self = (Inr (), self')
    \<longrightarrow> func self' = Some f \<and> func_ref self' = Some PNone \<and>
        job_getstate self' = Inl not_serializable"
  proof (rule impI)
    assume h: "is_callable f \<and> obj_to_ref E f = Inl (ValueError m) \<and>
      map_of changes ''func'' = Some f \<and> job_modify E changes self = (Inr (), self')"
    then have res: "resolve_func E f = Inr (f, PNone)"
      by (simp add: resolve_func_callable)
    from h have ch: "map_of changes ''func'' = Some f"
      and ok: "job_modify E changes self = (Inr (), self')" by simp_all
    from modify_func_commits [OF ch ok] res
    have slots: "func self' = Some f" "func_ref self' = Some PNone" by auto
    then have "job_getstate self' = Inl not_serializable"
      by (simp add: getstate_not_serializable)
    with slots show "func self' = Some f \<and> func_ref self' = Some PNone \<and>
        job_getstate self' = Inl not_serializable" by simp
  qed
  have three: "is_callable f \<and> obj_to_ref E f = Inr r \<and> truthy r \<and>
      map_of changes ''func'' = Some f \<and> job_modify E changes self = (Inr (), self')
    \<longrightarrow> func self' = Some f \<and> func_ref self' = Some r \<and>
        job_getstate self' \<noteq> Inl not_serializable"
  proof (rule impI)
    assume h: "is_callable f \<and> obj_to_ref E f = Inr r \<and> truthy r \<and>
      map_of changes ''func'' = Some f \<and> job_modify E changes self = (Inr (), self')"
    then have res: "resolve_func E f = Inr (f, r)"
      by (simp add: resolve_func_callable)
    from h have ch: "map_of changes ''func'' = Some f"
      and ok: "job_modify E changes self = (Inr (), self')" and tr: "truthy r" by simp_all
    from modify_func_commits [OF ch ok] res
    have slots: "func self' = Some f" "func_ref self' = Some r" by auto
    then have "job_getstate self' \<noteq> Inl not_serializable"
      using tr by (simp add: getstate_not_serializable)
    with slots show "func self' = Some f \<and> func_ref self' = Some r \<and>
        job_getstate self' \<noteq> Inl not_serializable" by simp
  qed
  from one two three show ?thesis by (intro conjI)
qed

theorem func_reference_decides_serialization_witness:
  "job_modify demo_env [(''func'', PFunc 1)] scenario_job = (Inr (), unreferenced_job) \<and>
   job_getstate unreferenced_job = Inl not_serializable \<and>
   job_modify demo_env [(''func'', PFunc 0)] scenario_job = (Inr (), scenario_job) \<and>
   job_getstate scenario_job \<noteq> Inl not_serializable"
proof -
  note t1 = func_reference_decides_serialization
    [where f = "PFunc 1" and E = demo_env and m = "''Cannot determine the reference''"
       and self = scenario_job and a = "PTuple []" and k = "PDict []" and n = "PStr ''f''"
       and changes = "[(''func'', PFunc 1)]" and self' = unreferenced_job]
  have pre1: "is_callable (PFunc 1) \<and>
      obj_to_ref demo_env (PFunc 1) = Inl (ValueError ''Cannot determine the reference'') \<and>
      args scenario_job = Some (PTuple []) \<and> kwargs scenario_job = Some (PDict []) \<and>
      name scenario_job = Some (PStr ''f'') \<and>
      \<not> is_string (PTuple []) \<and> is_iterable (PTuple []) \<and> is_mapping (PDict []) \<and>
      check_callable_args demo_env (PFunc 1) (PTuple []) (PDict []) = Inr ()"
    by (simp add: demo_env_def scenario_job_def)
  from t1 [THEN conjunct1, rule_format, OF pre1]
  have m1: "job_modify demo_env [(''func'', PFunc 1)] scenario_job = (Inr (), unreferenced_job)"
    by (simp add: unreferenced_job_def)
  have pre2: "is_callable (PFunc 1) \<and>
      obj_to_ref demo_env (PFunc 1) = Inl (ValueError ''Cannot determine the reference'') \<and>
      map_of [(''func'', PFunc 1)] ''func'' = Some (PFunc 1) \<and>
      job_modify demo_env [(''func'', PFunc 1)] scenario_job = (Inr (), unreferenced_job)"
    using m1 by (simp add: demo_env_def)
  from t1 [THEN conjunct2, THEN conjunct1, rule_format, OF pre2]
  have g1: "job_getstate unreferenced_job = Inl not_serializable" by simp
  have m0: "job_modify demo_env [(''func'', PFunc 0)] scenario_job = (Inr (), scenario_job)"
    using modify_func_alone [of demo_env "PFunc 0" "PStr ''mod:f''" scenario_job
            "PTuple []" "PDict []" "PStr ''f''"]
    by (simp add: resolve_func_def demo_env_def scenario_job_def)
  note t0 = func_reference_decides_serialization
    [where f = "PFunc 0" and E = demo_env and r = "PStr ''mod:f''"
       and self = scenario_job and changes = "[(''func'', PFunc 0)]" and self' = scenario_job]
  have pre3: "is_callable (PFunc 0) \<and> obj_to_ref demo_env (PFunc 0) = Inr (PStr ''mod:f'') \<and>
      truthy (PStr ''mod:f'') \<and> map_of [(''func'', PFunc 0)] ''func'' = Some (PFunc 0) \<and>
      job_modify demo_env [(''func'', PFunc 0)] scenario_job = (Inr (), scenario_job)"
    using m0 by (simp add: demo_env_def)
  from t0 [THEN conjunct2, THEN conjunct2, rule_format, OF pre3]
  have g0: "job_getstate scenario_job \<noteq> Inl not_serializable" by simp
  from m1 g1 m0 g0 show ?thesis by (intro conjI)
qed

end
